theory Spec2Isabelle
  imports Complex_Main
begin

section \<open>CarlaSyncMode: the frame synchronizer of the synchronous mode example\<close>

text \<open>
  The development embeds the class \<^verbatim>\<open>CarlaSyncMode\<close> of
  \<^verbatim>\<open>PythonAPI/examples/synchronous_mode.py\<close>: its constructor, \<^verbatim>\<open>__enter__\<close>,
  \<^verbatim>\<open>tick\<close>, \<^verbatim>\<open>_retrieve_data\<close> and \<^verbatim>\<open>__exit__\<close>. Mutation of \<^verbatim>\<open>self\<close> and of the
  simulation handle is explicit state passing; every exception is a value of \<open>error\<close>;
  a call that never returns has the value \<open>None\<close>.
\<close>

subsection \<open>Data\<close>

text \<open>
  The exceptions the class can raise: \<^verbatim>\<open>queue.Empty\<close> from \<^verbatim>\<open>Queue.get\<close> when the wait
  expires and \<^verbatim>\<open>ValueError\<close> from it for a negative timeout, the \<^verbatim>\<open>assert\<close> of
  \<^verbatim>\<open>tick\<close>, the two errors of the division in the constructor, and the rejection of
  \<^verbatim>\<open>None\<close> by \<^verbatim>\<open>apply_settings\<close>.
\<close>

datatype error =
  QueueEmpty | ValueError | AssertionError | ZeroDivisionError | OverflowError | ArgumentError



text \<open>\<^verbatim>\<open>carla.WorldSettings\<close>, with the three fields the class sets.\<close>

record 'f world_settings =
  no_rendering_mode :: bool
  synchronous_mode :: bool
  fixed_delta_seconds :: 'f

text \<open>
  A delivered item (a world snapshot or a sensor measurement). The class reads nothing of
  it but \<^verbatim>\<open>.frame\<close>; the rest is an opaque payload.
\<close>

record sensor_data =
  frame :: int
  payload :: nat

text \<open>
  The two registration hooks a queue can be subscribed to: \<^verbatim>\<open>world.on_tick\<close> and
  \<^verbatim>\<open>sensor.listen\<close> of a given sensor. Sensors are identified by a number.
\<close>

datatype producer = OnTick | Listen nat

text \<open>
  What a producer delivers to a queue may have no end, so the deliveries of a queue are a
  lazy list, finite or infinite; \<open>prepend\<close> puts finitely many deliveries in front of
  one, and \<open>llist_of\<close> is a delivery of finitely many items.
\<close>

codatatype (lset: 'a) llist = LNil | LCons 'a "'a llist"

primrec prepend :: "'a list \<Rightarrow> 'a llist \<Rightarrow> 'a llist" where
  "prepend [] l = l"
| "prepend (x # xs) l = LCons x (prepend xs l)"

definition llist_of :: "'a list \<Rightarrow> 'a llist" where
  "llist_of xs = prepend xs LNil"

text \<open>
  A \<^verbatim>\<open>queue.Queue\<close> made by \<^verbatim>\<open>make_queue\<close>: the hook its \<^verbatim>\<open>put\<close> was registered with,
  and the items it yields to \<^verbatim>\<open>get\<close>, front first, each with the time a \<^verbatim>\<open>get\<close> issued
  when the item is next in line has to wait for it: \<open>0\<close> for an item that is in the
  queue already, more for one the producer has yet to put. The wait counts from the
  moment that \<^verbatim>\<open>get\<close> is issued, so any course of deliveries is some choice of waits.
\<close>

type_synonym delivery = "real \<times> sensor_data"

record squeue =
  q_producer :: producer
  q_items :: "delivery llist"

text \<open>
  Modelled from the spec: the simulation handle (\<^verbatim>\<open>carla.World\<close>) is an external
  collaborator, consumed through \<^verbatim>\<open>get_settings\<close>, \<^verbatim>\<open>apply_settings\<close> and \<^verbatim>\<open>tick\<close>
  (spec sections 3 and 6). It holds its current settings and frame id; \<open>w_applied\<close>
  records every settings value passed to \<^verbatim>\<open>apply_settings\<close>, oldest first.
\<close>

record 'f sim_world =
  w_settings :: "'f world_settings"
  w_frame :: int
  w_applied :: "'f world_settings list"

text \<open>
  The fields of \<^verbatim>\<open>self\<close>. \<^verbatim>\<open>self.frame\<close> is \<open>self_frame\<close> (\<open>frame\<close> is the field
  of an item), \<^verbatim>\<open>self._queues\<close> and \<^verbatim>\<open>self._settings\<close> lose their underscore.
\<close>

record 'f sync_mode =
  world :: "'f sim_world"
  sensors :: "nat list"
  self_frame :: "int option"
  delta_seconds :: 'f
  queues :: "squeue list"
  settings :: "'f world_settings option"

subsection \<open>The simulation handle\<close>

text \<open>Modelled from the spec: \<^verbatim>\<open>get_settings() -> Settings\<close>.\<close>

definition get_settings :: "'f sim_world \<Rightarrow> 'f world_settings" where
  "get_settings w = w_settings w"

text \<open>
  Modelled from the spec: \<^verbatim>\<open>apply_settings(Settings) -> frame_id\<close> installs the settings
  and returns the frame id at which they took effect.
\<close>

definition apply_settings :: "'f world_settings \<Rightarrow> 'f sim_world \<Rightarrow> int \<times> 'f sim_world" where
  "apply_settings s w = (w_frame w, w\<lparr>w_settings := s, w_applied := w_applied w @ [s]\<rparr>)"

text \<open>
  Modelled from the spec: \<^verbatim>\<open>tick() -> frame_id\<close> advances the simulation by exactly one
  step and returns the new frame id.
\<close>

definition world_tick :: "'f sim_world \<Rightarrow> int \<times> 'f sim_world" where
  "world_tick w = (w_frame w + 1, w\<lparr>w_frame := w_frame w + 1\<rparr>)"

subsection \<open>Construction\<close>




subsection \<open>Entering and leaving the scope\<close>

text \<open>
  \<^verbatim>\<open>make_queue(register_event)\<close>: a fresh empty queue, subscribed to the hook and appended
  to \<^verbatim>\<open>self._queues\<close>.
\<close>

definition make_queue :: "producer \<Rightarrow> 'f sync_mode \<Rightarrow> 'f sync_mode" where
  "make_queue register_event self =
     self\<lparr>queues := queues self @ [\<lparr>q_producer = register_event, q_items = LNil\<rparr>]\<rparr>"

text \<open>
  \<^verbatim>\<open>__enter__\<close>: capture the settings, apply the synchronous ones and keep the returned
  frame id, then make one queue for \<^verbatim>\<open>world.on_tick\<close> and one per sensor, in order.
\<close>

definition enter :: "'f sync_mode \<Rightarrow> 'f sync_mode" where
  "enter self =
     (let s1 = self\<lparr>settings := Some (get_settings (world self))\<rparr>;
          (f, w) = apply_settings
                     \<lparr>no_rendering_mode = False, synchronous_mode = True,
                      fixed_delta_seconds = delta_seconds s1\<rparr> (world s1);
          s2 = s1\<lparr>world := w, self_frame := Some f\<rparr>;
          s3 = make_queue OnTick s2
      in foldl (\<lambda>s sensor. make_queue (Listen sensor) s) s3 (sensors s3))"

text \<open>
  \<^verbatim>\<open>__exit__\<close>: \<^verbatim>\<open>self.world.apply_settings(self._settings)\<close>, with no guard. Before any
  \<^verbatim>\<open>__enter__\<close> the field is \<^verbatim>\<open>None\<close>, which the handle rejects. The method returns
  \<^verbatim>\<open>None\<close>, so it never swallows an exception of the block.
\<close>

definition exit :: "'f sync_mode \<Rightarrow> error option \<times> 'f sync_mode" where
  "exit self =
     (case settings self of
        None \<Rightarrow> (Some ArgumentError, self)
      | Some s \<Rightarrow> (None, self\<lparr>world := snd (apply_settings s (world self))\<rparr>))"

subsection \<open>The step\<close>

text \<open>
  \<^verbatim>\<open>Queue.get(timeout=timeout)\<close> with a finite number for the timeout (\<^verbatim>\<open>None\<close>, which
  waits without limit, and the floats that are not finite are outside the type). A
  negative one raises \<^verbatim>\<open>ValueError\<close> before the queue is looked at. Otherwise the call returns the
  front item if that is there or arrives before the wait expires, and raises
  \<^verbatim>\<open>queue.Empty\<close> when the wait expires first: then the item that was awaited is still to
  come, sooner by the time waited. Every call waits anew.
\<close>

definition queue_get ::
  "real \<Rightarrow> delivery llist \<Rightarrow> (error + sensor_data) \<times> delivery llist" where
  "queue_get timeout q =
     (if timeout < 0 then (Inl ValueError, q)
      else case q of
             LNil \<Rightarrow> (Inl QueueEmpty, LNil)
           | LCons (w, d) r \<Rightarrow>
               if w \<le> timeout then (Inr d, r) else (Inl QueueEmpty, LCons (w - timeout, d) r))"

text \<open>
  \<^verbatim>\<open>_retrieve_data\<close>: the \<^verbatim>\<open>while True\<close> loop pops one item per round and returns the
  first whose frame is \<^verbatim>\<open>self.frame\<close>; an exception of \<^verbatim>\<open>get\<close> leaves the loop. On a
  queue that keeps delivering other frames in time the loop does not end.
\<close>

partial_function (option) retrieve_data ::
  "int option \<Rightarrow> real \<Rightarrow> delivery llist \<Rightarrow> ((error + sensor_data) \<times> delivery llist) option" where
  "retrieve_data f timeout q =
     (case queue_get timeout q of
        (Inl e, q') \<Rightarrow> Some (Inl e, q')
      | (Inr d, q') \<Rightarrow>
          if Some (frame d) = f then Some (Inr d, q') else retrieve_data f timeout q')"

text \<open>
  The list comprehension of \<^verbatim>\<open>tick\<close>: the queues are served left to right, and the
  first exception ends it, leaving the later queues unread.
\<close>

fun retrieve_all ::
  "int option \<Rightarrow> real \<Rightarrow> squeue list \<Rightarrow> ((error + sensor_data list) \<times> squeue list) option" where
  "retrieve_all f timeout [] = Some (Inr [], [])"
| "retrieve_all f timeout (q # qs) =
     (case retrieve_data f timeout (q_items q) of
        None \<Rightarrow> None
      | Some (Inl e, rest) \<Rightarrow> Some (Inl e, q\<lparr>q_items := rest\<rparr> # qs)
      | Some (Inr d, rest) \<Rightarrow>
          (case retrieve_all f timeout qs of
             None \<Rightarrow> None
           | Some (Inl e, qs') \<Rightarrow> Some (Inl e, q\<lparr>q_items := rest\<rparr> # qs')
           | Some (Inr ds, qs') \<Rightarrow> Some (Inr (d # ds), q\<lparr>q_items := rest\<rparr> # qs')))"

text \<open>
  \<^verbatim>\<open>tick(self, timeout)\<close>: step the world and store the frame id, gather one item per
  queue, assert that all carry that frame id, return them.
\<close>

definition tick ::
  "real \<Rightarrow> 'f sync_mode \<Rightarrow> ((error + sensor_data list) \<times> 'f sync_mode) option" where
  "tick timeout self =
     (let (f, w) = world_tick (world self);
          s1 = self\<lparr>world := w, self_frame := Some f\<rparr>
      in case retrieve_all (self_frame s1) timeout (queues s1) of
           None \<Rightarrow> None
         | Some (r, qs) \<Rightarrow>
             (let s2 = s1\<lparr>queues := qs\<rparr>
              in case r of
                   Inl e \<Rightarrow> Some (Inl e, s2)
                 | Inr data \<Rightarrow>
                     if list_all (\<lambda>x. Some (frame x) = self_frame s2) data
                     then Some (Inr data, s2)
                     else Some (Inl AssertionError, s2)))"

text \<open>
  The \<^verbatim>\<open>with\<close> statement around a block: \<^verbatim>\<open>__enter__\<close>, the block, then \<^verbatim>\<open>__exit__\<close>
  however the block ended. An exception of the block propagates, unless \<^verbatim>\<open>__exit__\<close>
  raises one itself. A block that never ends is never left.
\<close>

definition with_sync ::
  "'f sync_mode \<Rightarrow> ('f sync_mode \<Rightarrow> ((error + 'a) \<times> 'f sync_mode) option) \<Rightarrow>
     ((error + 'a) \<times> 'f sync_mode) option" where
  "with_sync self body =
     (case body (enter self) of
        None \<Rightarrow> None
      | Some (r, s2) \<Rightarrow>
          (let (e, s3) = exit s2
           in Some (case e of Some err \<Rightarrow> Inl err | None \<Rightarrow> r, s3)))"

subsection \<open>What a queue delivers\<close>

text \<open>
  Vocabulary for the contents of a queue, as seen by a retrieval for the frame \<open>f\<close>
  whose calls of \<^verbatim>\<open>get\<close> wait for \<open>timeout\<close>. The deliveries \<open>xs\<close> are passed over
  when each arrives in time and carries another frame: the loop pops them and goes on.
\<close>

definition passed_over :: "int option \<Rightarrow> real \<Rightarrow> delivery list \<Rightarrow> bool" where
  "passed_over f timeout xs \<longleftrightarrow> list_all (\<lambda>(w, x). w \<le> timeout \<and> Some (frame x) \<noteq> f) xs"

text \<open>
  A queue yields its item when, behind finitely many deliveries that are passed over, an
  item of the frame \<open>f\<close> arrives in time. It runs dry when, behind finitely many
  deliveries that are passed over, it is at its end or its next item arrives too late.
  A queue that does neither delivers other frames in time without end.
\<close>

definition yields :: "int option \<Rightarrow> real \<Rightarrow> delivery llist \<Rightarrow> bool" where
  "yields f timeout q \<longleftrightarrow>
     (\<exists>xs w d r. q = prepend xs (LCons (w, d) r) \<and> passed_over f timeout xs \<and>
                 w \<le> timeout \<and> Some (frame d) = f)"

definition runs_dry :: "int option \<Rightarrow> real \<Rightarrow> delivery llist \<Rightarrow> bool" where
  "runs_dry f timeout q \<longleftrightarrow>
     (\<exists>xs. passed_over f timeout xs \<and>
           (q = prepend xs LNil \<or> (\<exists>w d r. q = prepend xs (LCons (w, d) r) \<and> timeout < w)))"

text \<open>
  The queue \<open>q\<close> has been served with the item \<open>d\<close> and is \<open>q'\<close> afterwards: it held
  deliveries that were passed over, then \<open>d\<close>, of the frame \<open>f\<close> and in time, then what
  \<open>q'\<close> holds, and nothing else of it has changed.
\<close>

definition served :: "int option \<Rightarrow> real \<Rightarrow> squeue \<Rightarrow> sensor_data \<Rightarrow> squeue \<Rightarrow> bool" where
  "served f timeout q d q' \<longleftrightarrow>
     q' = q\<lparr>q_items := q_items q'\<rparr> \<and> Some (frame d) = f \<and>
     (\<exists>xs w. q_items q = prepend xs (LCons (w, d) (q_items q')) \<and>
             passed_over f timeout xs \<and> w \<le> timeout)"

text \<open>
  The queue \<open>q\<close> has run dry and is \<open>q'\<close> afterwards: the deliveries that were passed
  over are gone, and either nothing is left or the item that came too late is still
  ahead, sooner by the time waited, with everything behind it.
\<close>

definition dried :: "int option \<Rightarrow> real \<Rightarrow> squeue \<Rightarrow> squeue \<Rightarrow> bool" where
  "dried f timeout q q' \<longleftrightarrow>
     q' = q\<lparr>q_items := q_items q'\<rparr> \<and>
     (\<exists>xs. passed_over f timeout xs \<and>
        ((q_items q = prepend xs LNil \<and> q_items q' = LNil) \<or>
         (\<exists>w d r. q_items q = prepend xs (LCons (w, d) r) \<and> timeout < w \<and>
                  q_items q' = LCons (w - timeout, d) r)))"

subsection \<open>Concrete states\<close>


text \<open>
  A handle at frame 7 running asynchronously with rendering off, and the synchronizer
  that the constructor builds on it for two sensors with the default rate.
\<close>

definition ex_settings :: "real world_settings" where
  "ex_settings = \<lparr>no_rendering_mode = True, synchronous_mode = False, fixed_delta_seconds = 0\<rparr>"

definition ex_world :: "real sim_world" where
  "ex_world = \<lparr>w_settings = ex_settings, w_frame = 7, w_applied = []\<rparr>"

definition ex_self :: "real sync_mode" where
  "ex_self = \<lparr>world = ex_world, sensors = [1, 2], self_frame = None, delta_seconds = 1 / 20,
              queues = [], settings = None\<rparr>"

text \<open>
  That synchronizer inside its scope, ahead of the step to frame 8. The world's item is
  in its queue; the first sensor has two stale items queued and its item of frame 8
  arrives after half a second; the second sensor's item is queued, and its next one comes
  five seconds later.
\<close>

definition ex_loaded :: "real sync_mode" where
  "ex_loaded = (enter ex_self)\<lparr>queues :=
     [\<lparr>q_producer = OnTick, q_items = llist_of [(0, \<lparr>frame = 8, payload = 0\<rparr>)]\<rparr>,
      \<lparr>q_producer = Listen 1,
       q_items = llist_of [(0, \<lparr>frame = 6, payload = 1\<rparr>), (0, \<lparr>frame = 7, payload = 2\<rparr>),
                           (1 / 2, \<lparr>frame = 8, payload = 3\<rparr>)]\<rparr>,
      \<lparr>q_producer = Listen 2,
       q_items = llist_of [(0, \<lparr>frame = 8, payload = 4\<rparr>), (5, \<lparr>frame = 9, payload = 5\<rparr>)]\<rparr>]\<rparr>"

text \<open>
  The same, with an item of frame 9 queued by the first sensor in front of its item of
  frame 8.
\<close>

definition ex_future :: "real sync_mode" where
  "ex_future = (enter ex_self)\<lparr>queues :=
     [\<lparr>q_producer = OnTick, q_items = llist_of [(0, \<lparr>frame = 8, payload = 0\<rparr>)]\<rparr>,
      \<lparr>q_producer = Listen 1,
       q_items = llist_of [(0, \<lparr>frame = 9, payload = 1\<rparr>), (0, \<lparr>frame = 8, payload = 2\<rparr>)]\<rparr>,
      \<lparr>q_producer = Listen 2, q_items = llist_of [(0, \<lparr>frame = 8, payload = 3\<rparr>)]\<rparr>]\<rparr>"

text \<open>
  The same, where the first sensor has a stale item queued and needs three seconds for
  its item of frame 8; the items of frame 9 follow one second after their predecessors.
\<close>

definition ex_partial :: "real sync_mode" where
  "ex_partial = (enter ex_self)\<lparr>queues :=
     [\<lparr>q_producer = OnTick,
       q_items = llist_of [(0, \<lparr>frame = 8, payload = 0\<rparr>), (1, \<lparr>frame = 9, payload = 1\<rparr>)]\<rparr>,
      \<lparr>q_producer = Listen 1,
       q_items = llist_of [(0, \<lparr>frame = 7, payload = 2\<rparr>), (3, \<lparr>frame = 8, payload = 3\<rparr>),
                           (1, \<lparr>frame = 9, payload = 4\<rparr>)]\<rparr>,
      \<lparr>q_producer = Listen 2,
       q_items = llist_of [(0, \<lparr>frame = 8, payload = 5\<rparr>), (1, \<lparr>frame = 9, payload = 6\<rparr>)]\<rparr>]\<rparr>"

text \<open>
  A producer that puts items of frame 7 without end, each one there when it is asked
  for, and a synchronizer whose first sensor is such a producer.
\<close>

primcorec stale_forever :: "delivery llist" where
  "stale_forever = LCons (0, \<lparr>frame = 7, payload = 0\<rparr>) stale_forever"

definition ex_endless :: "real sync_mode" where
  "ex_endless = (enter ex_self)\<lparr>queues :=
     [\<lparr>q_producer = OnTick, q_items = llist_of [(0, \<lparr>frame = 8, payload = 0\<rparr>)]\<rparr>,
      \<lparr>q_producer = Listen 1, q_items = stale_forever\<rparr>,
      \<lparr>q_producer = Listen 2, q_items = LNil\<rparr>]\<rparr>"

section \<open>Facts about the operations\<close>

subsection \<open>Retrieval from one queue\<close>

text \<open>
  The defining equation of \<open>retrieve_data\<close> unfolds without end; the two equations
  below, one per shape of the queue, replace it for simplification.
\<close>

lemma retrieve_data_LNil [simp]:
  "retrieve_data f timeout LNil =
     (if timeout < 0 then Some (Inl ValueError, LNil) else Some (Inl QueueEmpty, LNil))"
  by (subst retrieve_data.simps) (simp add: queue_get_def)

lemma retrieve_data_LCons [simp]:
  "retrieve_data f timeout (LCons (w, d) r) =
     (if timeout < 0 then Some (Inl ValueError, LCons (w, d) r)
      else if w \<le> timeout
        then if Some (frame d) = f then Some (Inr d, r) else retrieve_data f timeout r
        else Some (Inl QueueEmpty, LCons (w - timeout, d) r))"
  by (subst retrieve_data.simps) (simp add: queue_get_def)

lemma retrieve_data_negative:
  "timeout < 0 \<Longrightarrow> retrieve_data f timeout q = Some (Inl ValueError, q)"
  by (subst retrieve_data.simps) (simp add: queue_get_def)

lemma passed_over_Nil [simp]: "passed_over f timeout []"
  by (simp add: passed_over_def)

lemma passed_over_Cons [simp]:
  "passed_over f timeout ((w, x) # xs) \<longleftrightarrow>
     w \<le> timeout \<and> Some (frame x) \<noteq> f \<and> passed_over f timeout xs"
  by (simp add: passed_over_def)

lemma retrieve_data_prepend:
  "0 \<le> timeout \<Longrightarrow> passed_over f timeout xs \<Longrightarrow>
     retrieve_data f timeout (prepend xs q) = retrieve_data f timeout q"
  by (induction xs) auto

lemma retrieve_data_cases:
  assumes "retrieve_data f timeout q = Some (r, q')"
  shows "(timeout < 0 \<and> r = Inl ValueError \<and> q' = q) \<or>
         (0 \<le> timeout \<and>
          (\<exists>xs. passed_over f timeout xs \<and>
             ((\<exists>w d. q = prepend xs (LCons (w, d) q') \<and> w \<le> timeout \<and>
                     Some (frame d) = f \<and> r = Inr d) \<or>
              (q = prepend xs LNil \<and> q' = LNil \<and> r = Inl QueueEmpty) \<or>
              (\<exists>w d rest. q = prepend xs (LCons (w, d) rest) \<and> timeout < w \<and>
                     q' = LCons (w - timeout, d) rest \<and> r = Inl QueueEmpty))))"
proof -
  define P where "P f timeout q y \<longleftrightarrow>
    (timeout < 0 \<and> fst y = Inl ValueError \<and> snd y = q) \<or>
         (0 \<le> timeout \<and>
          (\<exists>xs. passed_over f timeout xs \<and>
             ((\<exists>w d. q = prepend xs (LCons (w, d) (snd y)) \<and> w \<le> timeout \<and>
                     Some (frame d) = f \<and> fst y = Inr d) \<or>
              (q = prepend xs LNil \<and> snd y = LNil \<and> fst y = Inl QueueEmpty) \<or>
              (\<exists>w d rest. q = prepend xs (LCons (w, d) rest) \<and> timeout < w \<and>
                     snd y = LCons (w - timeout, d) rest \<and> fst y = Inl QueueEmpty))))"
    for f :: "int option" and timeout :: real and q :: "delivery llist"
      and y :: "(error + sensor_data) \<times> delivery llist"
  have "P f timeout q (r, q')"
  proof (rule retrieve_data.raw_induct [where P = P, OF _ assms])
    fix rec :: "int option \<Rightarrow> real \<Rightarrow> delivery llist \<Rightarrow>
                  ((error + sensor_data) \<times> delivery llist) option"
      and f :: "int option" and timeout :: real and q :: "delivery llist"
      and y :: "(error + sensor_data) \<times> delivery llist"
    assume IH: "\<And>f timeout q y. rec f timeout q = Some y \<Longrightarrow> P f timeout q y"
      and step: "(case queue_get timeout q of
                    (Inl e, q') \<Rightarrow> Some (Inl e, q')
                  | (Inr d, q') \<Rightarrow>
                      if Some (frame d) = f then Some (Inr d, q') else rec f timeout q') = Some y"
    show "P f timeout q y"
    proof (cases "timeout < 0")
      case True
      with step show ?thesis
        by (auto simp: queue_get_def P_def)
    next
      case nonneg: False
      show ?thesis
      proof (cases q)
        case LNil
        with nonneg step have "y = (Inl QueueEmpty, LNil)"
          by (auto simp: queue_get_def)
        with nonneg LNil show ?thesis
          unfolding P_def by (auto intro!: exI [of _ "[]"])
      next
        case (LCons wd rest)
        obtain w d where wd: "wd = (w, d)"
          by (cases wd)
        show ?thesis
        proof (cases "w \<le> timeout")
          case late: False
          with nonneg LCons wd step have "y = (Inl QueueEmpty, LCons (w - timeout, d) rest)"
            by (auto simp: queue_get_def)
          with nonneg LCons wd late show ?thesis
            unfolding P_def by (auto intro!: exI [of _ "[]"])
        next
          case timely: True
          show ?thesis
          proof (cases "Some (frame d) = f")
            case True
            with nonneg LCons wd timely step have "y = (Inr d, rest)"
              by (auto simp: queue_get_def)
            with nonneg LCons wd timely True show ?thesis
              unfolding P_def by (auto intro!: exI [of _ "[]"])
          next
            case False
            with nonneg LCons wd timely step have "rec f timeout rest = Some y"
              by (auto simp: queue_get_def)
            from IH [OF this] nonneg obtain xs where
              xs: "passed_over f timeout xs"
                "(\<exists>w d. rest = prepend xs (LCons (w, d) (snd y)) \<and> w \<le> timeout \<and>
                     Some (frame d) = f \<and> fst y = Inr d) \<or>
                 (rest = prepend xs LNil \<and> snd y = LNil \<and> fst y = Inl QueueEmpty) \<or>
                 (\<exists>w d rest'. rest = prepend xs (LCons (w, d) rest') \<and> timeout < w \<and>
                     snd y = LCons (w - timeout, d) rest' \<and> fst y = Inl QueueEmpty)"
              unfolding P_def by blast
            from xs(1) timely False have "passed_over f timeout ((w, d) # xs)"
              by simp
            moreover from xs(2) LCons wd have
                "(\<exists>w' d'. q = prepend ((w, d) # xs) (LCons (w', d') (snd y)) \<and> w' \<le> timeout \<and>
                     Some (frame d') = f \<and> fst y = Inr d') \<or>
                 (q = prepend ((w, d) # xs) LNil \<and> snd y = LNil \<and> fst y = Inl QueueEmpty) \<or>
                 (\<exists>w' d' rest'. q = prepend ((w, d) # xs) (LCons (w', d') rest') \<and> timeout < w' \<and>
                     snd y = LCons (w' - timeout, d') rest' \<and> fst y = Inl QueueEmpty)"
              by auto
            moreover from nonneg have "0 \<le> timeout"
              by simp
            ultimately show ?thesis
              unfolding P_def by blast
          qed
        qed
      qed
    qed
  qed
  then show ?thesis
    by (simp add: P_def)
qed

lemma retrieve_data_yields:
  assumes "0 \<le> timeout" and "yields f timeout q"
  shows "\<exists>d r. retrieve_data f timeout q = Some (Inr d, r) \<and> Some (frame d) = f"
proof -
  from assms(2) obtain xs w d r where
    "q = prepend xs (LCons (w, d) r)" "passed_over f timeout xs" "w \<le> timeout" "Some (frame d) = f"
    unfolding yields_def by blast
  with assms(1) have "retrieve_data f timeout q = Some (Inr d, r)"
    by (simp add: retrieve_data_prepend)
  with \<open>Some (frame d) = f\<close> show ?thesis
    by blast
qed

lemma retrieve_data_runs_dry:
  assumes "0 \<le> timeout" and "runs_dry f timeout q"
  shows "\<exists>r. retrieve_data f timeout q = Some (Inl QueueEmpty, r)"
proof -
  from assms(2) obtain xs where xs: "passed_over f timeout xs"
    and q: "q = prepend xs LNil \<or> (\<exists>w d r. q = prepend xs (LCons (w, d) r) \<and> timeout < w)"
    unfolding runs_dry_def by blast
  from q show ?thesis
  proof
    assume "q = prepend xs LNil"
    with assms(1) xs show ?thesis
      by (simp add: retrieve_data_prepend)
  next
    assume "\<exists>w d r. q = prepend xs (LCons (w, d) r) \<and> timeout < w"
    then obtain w d r where "q = prepend xs (LCons (w, d) r)" "timeout < w"
      by blast
    with assms(1) xs show ?thesis
      by (simp add: retrieve_data_prepend)
  qed
qed

subsection \<open>Retrieval from all queues\<close>

lemma retrieve_data_served:
  assumes "retrieve_data f timeout (q_items q) = Some (Inr d, rest)"
  shows "0 \<le> timeout \<and> served f timeout q d (q\<lparr>q_items := rest\<rparr>)"
  using retrieve_data_cases [OF assms] by (auto simp: served_def)

lemma retrieve_data_dried:
  assumes "retrieve_data f timeout (q_items q) = Some (Inl e, rest)"
  shows "(timeout < 0 \<and> e = ValueError \<and> rest = q_items q) \<or>
         (0 \<le> timeout \<and> e = QueueEmpty \<and> dried f timeout q (q\<lparr>q_items := rest\<rparr>))"
  using retrieve_data_cases [OF assms] by (auto simp: dried_def)

lemma retrieve_all_producers:
  "retrieve_all f timeout qs = Some (r, qs') \<Longrightarrow> map q_producer qs' = map q_producer qs"
  by (induction qs arbitrary: r qs') (auto split: option.splits prod.splits sum.splits)

lemma retrieve_all_Inr:
  "retrieve_all f timeout qs = Some (Inr ds, qs') \<Longrightarrow>
     length ds = length qs \<and> length qs' = length qs \<and>
     (\<forall>k<length qs. served f timeout (qs ! k) (ds ! k) (qs' ! k))"
proof (induction qs arbitrary: ds qs')
  case Nil
  then show ?case by simp
next
  case (Cons q qs)
  from Cons.prems obtain d rest ds0 qs0 where
    h: "retrieve_data f timeout (q_items q) = Some (Inr d, rest)"
       "retrieve_all f timeout qs = Some (Inr ds0, qs0)"
       "ds = d # ds0" "qs' = q\<lparr>q_items := rest\<rparr> # qs0"
    by (auto split: option.splits prod.splits sum.splits)
  from retrieve_data_served [OF h(1)] have s: "served f timeout q d (q\<lparr>q_items := rest\<rparr>)"
    by simp
  from Cons.IH [OF h(2)] have
    ih: "length ds0 = length qs" "length qs0 = length qs"
        "\<forall>k<length qs. served f timeout (qs ! k) (ds0 ! k) (qs0 ! k)"
    by simp_all
  have "served f timeout ((q # qs) ! k) (ds ! k) (qs' ! k)" if "k < length (q # qs)" for k
    using that s ih(3) h(3,4) by (cases k) simp_all
  with ih(1,2) h(3,4) show ?case
    by simp
qed

lemma retrieve_all_Inl:
  "retrieve_all f timeout qs = Some (Inl e, qs') \<Longrightarrow>
     (timeout < 0 \<and> e = ValueError \<and> qs' = qs) \<or>
     (0 \<le> timeout \<and> e = QueueEmpty \<and>
      (\<exists>pre q post pre' q'.
         qs = pre @ q # post \<and> qs' = pre' @ q' # post \<and> length pre' = length pre \<and>
         (\<forall>k<length pre. \<exists>d. served f timeout (pre ! k) d (pre' ! k)) \<and>
         dried f timeout q q'))"
proof (induction qs arbitrary: qs')
  case Nil
  then show ?case by simp
next
  case (Cons q qs)
  from Cons.prems obtain r rest where
    rd: "retrieve_data f timeout (q_items q) = Some (r, rest)"
    by (auto split: option.splits)
  show ?case
  proof (cases r)
    case (Inl e')
    with rd Cons.prems have e: "e = e'" and qs': "qs' = q\<lparr>q_items := rest\<rparr> # qs"
      by simp_all
    from retrieve_data_dried [of f timeout q e' rest] rd Inl
    consider "timeout < 0" "e' = ValueError" "rest = q_items q"
      | "0 \<le> timeout" "e' = QueueEmpty" "dried f timeout q (q\<lparr>q_items := rest\<rparr>)"
      by blast
    then show ?thesis
    proof cases
      case 1
      with e qs' show ?thesis by simp
    next
      case 2
      have "q # qs = [] @ q # qs \<and> qs' = [] @ q\<lparr>q_items := rest\<rparr> # qs \<and>
            length ([] :: squeue list) = length ([] :: squeue list) \<and>
            (\<forall>k<length ([] :: squeue list). \<exists>d. served f timeout ([] ! k) d ([] ! k)) \<and>
            dried f timeout q (q\<lparr>q_items := rest\<rparr>)"
        using qs' 2(3) by simp
      with 2(1,2) e show ?thesis
        by blast
    qed
  next
    case (Inr d)
    with rd Cons.prems obtain qs0 where
      ra: "retrieve_all f timeout qs = Some (Inl e, qs0)"
      and qs': "qs' = q\<lparr>q_items := rest\<rparr> # qs0"
      by (auto split: option.splits prod.splits sum.splits)
    from retrieve_data_served [of f timeout q d rest] rd Inr have
      nn: "0 \<le> timeout" and s: "served f timeout q d (q\<lparr>q_items := rest\<rparr>)"
      by simp_all
    from Cons.IH [OF ra] nn obtain pre q0 post pre' q0' where
      sh: "e = QueueEmpty" "qs = pre @ q0 # post" "qs0 = pre' @ q0' # post"
          "length pre' = length pre"
          "\<forall>k<length pre. \<exists>d. served f timeout (pre ! k) d (pre' ! k)"
          "dried f timeout q0 q0'"
      by auto
    have "\<exists>d. served f timeout ((q # pre) ! k) d ((q\<lparr>q_items := rest\<rparr> # pre') ! k)"
      if "k < length (q # pre)" for k
      using that s sh(5) by (cases k) auto
    then have "q # qs = (q # pre) @ q0 # post \<and>
          qs' = (q\<lparr>q_items := rest\<rparr> # pre') @ q0' # post \<and>
          length (q\<lparr>q_items := rest\<rparr> # pre') = length (q # pre) \<and>
          (\<forall>k<length (q # pre). \<exists>d. served f timeout ((q # pre) ! k) d
                                    ((q\<lparr>q_items := rest\<rparr> # pre') ! k)) \<and>
          dried f timeout q0 q0'"
      using sh qs' by simp
    with nn sh(1) show ?thesis
      by blast
  qed
qed

lemma retrieve_all_negative:
  "timeout < 0 \<Longrightarrow> qs \<noteq> [] \<Longrightarrow> retrieve_all f timeout qs = Some (Inl ValueError, qs)"
  by (cases qs) (simp_all add: retrieve_data_negative)

lemma retrieve_all_yield:
  assumes "0 \<le> timeout" and "\<forall>q\<in>set qs. yields f timeout (q_items q)"
  shows "\<exists>ds qs'. retrieve_all f timeout qs = Some (Inr ds, qs')"
  using assms(2)
proof (induction qs)
  case Nil
  then show ?case by simp
next
  case (Cons q qs)
  from Cons.prems have "yields f timeout (q_items q)"
    by simp
  from retrieve_data_yields [OF assms(1) this] obtain d r where
    "retrieve_data f timeout (q_items q) = Some (Inr d, r)"
    by blast
  moreover from Cons obtain ds qs' where "retrieve_all f timeout qs = Some (Inr ds, qs')"
    by auto
  ultimately show ?case
    by simp
qed

lemma retrieve_all_runs_dry:
  assumes "0 \<le> timeout"
    and "\<forall>p\<in>set pre. yields f timeout (q_items p) \<or> runs_dry f timeout (q_items p)"
    and "runs_dry f timeout (q_items q)"
  shows "\<exists>qs'. retrieve_all f timeout (pre @ q # post) = Some (Inl QueueEmpty, qs')"
  using assms(2)
proof (induction pre)
  case Nil
  from retrieve_data_runs_dry [OF assms(1,3)] show ?case
    by auto
next
  case (Cons p pre)
  from Cons obtain qs' where
    ih: "retrieve_all f timeout (pre @ q # post) = Some (Inl QueueEmpty, qs')"
    by auto
  from Cons.prems have "yields f timeout (q_items p) \<or> runs_dry f timeout (q_items p)"
    by simp
  then show ?case
  proof
    assume "yields f timeout (q_items p)"
    from retrieve_data_yields [OF assms(1) this] ih show ?thesis
      by auto
  next
    assume "runs_dry f timeout (q_items p)"
    from retrieve_data_runs_dry [OF assms(1) this] show ?thesis
      by auto
  qed
qed

lemma retrieve_all_frames:
  assumes "retrieve_all f timeout qs = Some (Inr ds, qs')"
  shows "list_all (\<lambda>x. Some (frame x) = f) ds"
proof -
  from retrieve_all_Inr [OF assms] have
    "length ds = length qs" "\<forall>k<length qs. Some (frame (ds ! k)) = f"
    by (simp_all add: served_def)
  then show ?thesis
    by (simp add: list_all_length)
qed

lemma tick_eq:
  "tick timeout self =
     (case retrieve_all (Some (w_frame (world self) + 1)) timeout (queues self) of
        None \<Rightarrow> None
      | Some (r, qs) \<Rightarrow>
          Some (r, self\<lparr>world := (world self)\<lparr>w_frame := w_frame (world self) + 1\<rparr>,
                        self_frame := Some (w_frame (world self) + 1), queues := qs\<rparr>))"
proof (cases "retrieve_all (Some (w_frame (world self) + 1)) timeout (queues self)")
  case None
  then show ?thesis
    by (simp add: tick_def world_tick_def)
next
  case (Some a)
  obtain r qs where a: "a = (r, qs)"
    by (cases a)
  show ?thesis
  proof (cases r)
    case (Inl e)
    with Some a show ?thesis
      by (simp add: tick_def world_tick_def)
  next
    case (Inr data)
    with Some a have "list_all (\<lambda>x. Some (frame x) = Some (w_frame (world self) + 1)) data"
      by (auto dest: retrieve_all_frames)
    with Some a Inr show ?thesis
      by (simp add: tick_def world_tick_def)
  qed
qed

lemma lset_prepend: "lset (prepend xs l) = set xs \<union> lset l"
  by (induction xs) auto

lemma tick_Some_iff:
  "tick timeout self = Some (r, self') \<longleftrightarrow>
     (\<exists>qs. retrieve_all (Some (w_frame (world self) + 1)) timeout (queues self) = Some (r, qs) \<and>
           self' = self\<lparr>world := (world self)\<lparr>w_frame := w_frame (world self) + 1\<rparr>,
                        self_frame := Some (w_frame (world self) + 1), queues := qs\<rparr>)"
  by (auto simp: tick_eq split: option.splits)

lemma retrieve_all_nth:
  "retrieve_all f timeout qs = Some (Inr ds, qs') \<Longrightarrow> k < length qs \<Longrightarrow>
     retrieve_data f timeout (q_items (qs ! k)) = Some (Inr (ds ! k), q_items (qs' ! k)) \<and>
     qs' ! k = (qs ! k)\<lparr>q_items := q_items (qs' ! k)\<rparr>"
proof (induction qs arbitrary: ds qs' k)
  case Nil
  then show ?case by simp
next
  case (Cons q qs)
  from Cons.prems(1) obtain d rest ds0 qs0 where
    h: "retrieve_data f timeout (q_items q) = Some (Inr d, rest)"
       "retrieve_all f timeout qs = Some (Inr ds0, qs0)"
       "ds = d # ds0" "qs' = q\<lparr>q_items := rest\<rparr> # qs0"
    by (auto split: option.splits prod.splits sum.splits)
  show ?case
  proof (cases k)
    case 0
    with h show ?thesis by simp
  next
    case (Suc j)
    with Cons.prems(2) have "j < length qs" by simp
    from Cons.IH [OF h(2) this] Suc h(3,4) show ?thesis by simp
  qed
qed



subsection \<open>Entering\<close>

text \<open>\<^verbatim>\<open>__enter__\<close> in one update of \<^verbatim>\<open>self\<close>.\<close>

lemma enter_eq:
  "enter self =
     self\<lparr>world := (world self)\<lparr>w_settings := \<lparr>no_rendering_mode = False, synchronous_mode = True,
                                               fixed_delta_seconds = delta_seconds self\<rparr>,
                                w_applied := w_applied (world self) @
                                  [\<lparr>no_rendering_mode = False, synchronous_mode = True,
                                    fixed_delta_seconds = delta_seconds self\<rparr>]\<rparr>,
          self_frame := Some (w_frame (world self)),
          queues := queues self @ \<lparr>q_producer = OnTick, q_items = LNil\<rparr> #
                      map (\<lambda>sensor. \<lparr>q_producer = Listen sensor, q_items = LNil\<rparr>) (sensors self),
          settings := Some (get_settings (world self))\<rparr>"
proof -
  have fold: "foldl (\<lambda>s sensor. make_queue (Listen sensor) s) s0 ss =
              s0\<lparr>queues := queues s0 @ map (\<lambda>sensor. \<lparr>q_producer = Listen sensor, q_items = LNil\<rparr>) ss\<rparr>"
    for s0 :: "'a sync_mode" and ss
    by (induction ss arbitrary: s0) (simp_all add: make_queue_def)
  show ?thesis
    unfolding enter_def Let_def fold
    by (simp add: make_queue_def apply_settings_def)
qed

lemma tick_keeps_settings:
  "tick timeout self = Some (r, self') \<Longrightarrow> settings self' = settings self"
  by (auto simp: tick_Some_iff)

subsection \<open>The endless producer\<close>

text \<open>A retrieval for frame 8 from the producer of frame 7 never returns.\<close>

lemma stale_forever_no_end: "stale_forever \<noteq> prepend xs LNil"
proof (induction xs)
  case Nil
  show ?case by (subst stale_forever.code) simp
next
  case (Cons x xs)
  then show ?case by (subst stale_forever.code) simp
qed

lemma stale_forever_items:
  "stale_forever = prepend xs (LCons (w, d) r) \<Longrightarrow> (w, d) = (0, \<lparr>frame = 7, payload = 0\<rparr>)"
proof (induction xs)
  case Nil
  then show ?case by (subst (asm) stale_forever.code) simp
next
  case (Cons x xs)
  from Cons.prems have "stale_forever = prepend xs (LCons (w, d) r)"
    by (subst (asm) stale_forever.code) simp
  then show ?case by (rule Cons.IH)
qed

lemma retrieve_data_stale_forever: "retrieve_data (Some 8) 2 stale_forever = None"
proof (cases "retrieve_data (Some 8) 2 stale_forever")
  case None
  then show ?thesis .
next
  case (Some y)
  obtain r q' where "y = (r, q')"
    by (cases y)
  with Some have "retrieve_data (Some 8) 2 stale_forever = Some (r, q')"
    by simp
  from retrieve_data_cases [OF this] have False
    using stale_forever_no_end by (auto dest!: stale_forever_items)
  then show ?thesis ..
qed

section \<open>Properties\<close>

text \<open>Unfolding the concrete states and the operations they are built from.\<close>

lemmas ex_defs = ex_settings_def ex_world_def ex_self_def ex_loaded_def ex_future_def
  ex_partial_def ex_endless_def llist_of_def
  enter_def make_queue_def apply_settings_def get_settings_def world_tick_def

subsection \<open>C1: frame alignment\<close>

text \<open>
  Claim C1. Whenever \<^verbatim>\<open>tick(timeout)\<close> returns normally, the stored frame is the frame id
  the simulation step of that call returned, every item of the returned bundle carries
  that frame id, any two items of the bundle carry the same one, and the condition of
  the \<^verbatim>\<open>assert\<close> that precedes the \<^verbatim>\<open>return\<close> holds of the bundle.
\<close>

theorem tick_frame_alignment:
  assumes "tick timeout self = Some (Inr data, self')"
  shows "self_frame self' = Some (fst (world_tick (world self))) \<and>
         (\<forall>x\<in>set data. frame x = fst (world_tick (world self))) \<and>
         (\<forall>x\<in>set data. \<forall>y\<in>set data. frame x = frame y) \<and>
         list_all (\<lambda>x. Some (frame x) = self_frame self') data"
proof -
  let ?f = "w_frame (world self) + 1"
  from assms obtain qs where
    r: "retrieve_all (Some ?f) timeout (queues self) = Some (Inr data, qs)"
    and s: "self_frame self' = Some ?f"
    by (auto simp: tick_Some_iff)
  from retrieve_all_frames [OF r] have "\<forall>x\<in>set data. frame x = ?f"
    by (simp add: list_all_iff)
  with s show ?thesis
    by (simp add: world_tick_def list_all_iff)
qed

text \<open>
  A step from frame 7 to frame 8 over three queues, the second holding two stale items:
  the bundle is the three items of frame 8.
\<close>

theorem tick_frame_alignment_witness:
  "map_option fst (tick 2 ex_loaded) =
     Some (Inr [\<lparr>frame = 8, payload = 0\<rparr>, \<lparr>frame = 8, payload = 3\<rparr>, \<lparr>frame = 8, payload = 4\<rparr>]) \<and>
   map_option (self_frame \<circ> snd) (tick 2 ex_loaded) = Some (Some 8) \<and>
   list_all (\<lambda>x. frame x = 8)
     [\<lparr>frame = 8, payload = 0\<rparr>, \<lparr>frame = 8, payload = 3\<rparr>, \<lparr>frame = 8, payload = 4\<rparr>]"
proof -
  obtain s where h: "tick 2 ex_loaded =
    Some (Inr [\<lparr>frame = 8, payload = 0\<rparr>, \<lparr>frame = 8, payload = 3\<rparr>, \<lparr>frame = 8, payload = 4\<rparr>], s)"
    by (simp add: tick_def ex_defs)
  have w: "fst (world_tick (world ex_loaded)) = 8"
    by (simp add: ex_defs)
  have "self_frame s = Some (fst (world_tick (world ex_loaded)))"
    using tick_frame_alignment [OF h] by (rule conjunct1)
  with w h show ?thesis
    by simp
qed

subsection \<open>C2: stale items are discarded\<close>

text \<open>
  Claim C2 speaks of every tick call. With a negative timeout the first \<^verbatim>\<open>Queue.get\<close>
  raises \<^verbatim>\<open>ValueError\<close> before it looks at the queue: on the queue of frames 6, 7, 8
  ahead of the step to frame 8 nothing is popped and no item is returned.
\<close>

theorem negative_timeout_counterexample:
  "retrieve_data (Some 8) (- 1)
     (llist_of [(0, \<lparr>frame = 6, payload = 1\<rparr>), (0, \<lparr>frame = 7, payload = 2\<rparr>),
                (0, \<lparr>frame = 8, payload = 3\<rparr>)]) =
     Some (Inl ValueError,
       llist_of [(0, \<lparr>frame = 6, payload = 1\<rparr>), (0, \<lparr>frame = 7, payload = 2\<rparr>),
                 (0, \<lparr>frame = 8, payload = 3\<rparr>)]) \<and>
   map_option fst (tick (- 1) ex_loaded) = Some (Inl ValueError) \<and>
   map_option (queues \<circ> snd) (tick (- 1) ex_loaded) = Some (queues ex_loaded)"
  by (simp add: tick_def ex_defs)

text \<open>
  Claim C2 as amended, for a timeout that is not negative. When a queue holds items of
  smaller frame ids in front of an item of the current frame, all there or arriving in
  time, \<^verbatim>\<open>_retrieve_data\<close> pops from the front up to that item and returns it; the
  popped items of smaller frame are gone from the queue. A queue loaded with finitely
  many items has become shorter by the number of discarded items plus one. In a tick
  that returns normally, the item is the entry of that queue in the bundle, and the
  queue afterwards holds exactly what was behind the item.
\<close>

theorem retrieve_data_discards_stale:
  assumes "0 \<le> timeout"
    and "\<forall>(w', x)\<in>set stale. w' \<le> timeout \<and> frame x < f"
    and "w \<le> timeout" and "frame d = f"
  shows "retrieve_data (Some f) timeout (prepend stale (LCons (w, d) rest)) = Some (Inr d, rest) \<and>
         retrieve_data (Some f) timeout (llist_of (stale @ (w, d) # ys)) =
           Some (Inr d, llist_of ys) \<and>
         length ys = length (stale @ (w, d) # ys) - (length stale + 1) \<and>
         (tick timeout self = Some (Inr data, self') \<and> fst (world_tick (world self)) = f \<and>
          k < length (queues self) \<and>
          q_items (queues self ! k) = prepend stale (LCons (w, d) rest) \<longrightarrow>
            data ! k = d \<and> queues self' ! k = (queues self ! k)\<lparr>q_items := rest\<rparr>)"
proof -
  from assms(2) have po: "passed_over (Some f) timeout stale"
    by (auto simp: passed_over_def list_all_iff)
  have a: "retrieve_data (Some f) timeout (prepend stale (LCons (w, d) r)) = Some (Inr d, r)" for r
    using assms(1,3,4) po by (simp add: retrieve_data_prepend)
  have "prepend (stale @ (w, d) # ys) LNil = prepend stale (LCons (w, d) (prepend ys LNil))"
    by (induction stale) simp_all
  with a have b: "retrieve_data (Some f) timeout (llist_of (stale @ (w, d) # ys)) =
                  Some (Inr d, llist_of ys)"
    by (simp add: llist_of_def)
  have c: "data ! k = d \<and> queues self' ! k = (queues self ! k)\<lparr>q_items := rest\<rparr>"
    if t: "tick timeout self = Some (Inr data, self')" and f: "fst (world_tick (world self)) = f"
      and k: "k < length (queues self)"
      and q: "q_items (queues self ! k) = prepend stale (LCons (w, d) rest)"
  proof -
    from t f have "retrieve_all (Some f) timeout (queues self) = Some (Inr data, queues self')"
      by (auto simp: tick_Some_iff world_tick_def)
    from retrieve_all_nth [OF this k] q a [of rest] show ?thesis
      by simp
  qed
  from a [of rest] b c show ?thesis
    by simp
qed

text \<open>
  The queue of frames 6, 7, 8 ahead of the step to frame 8, alone and as the second
  queue of a tick: the item of frame 8 is returned and the queue is three items shorter.
  The third queue of that tick keeps the item behind its item of frame 8.
\<close>

theorem retrieve_data_discards_stale_witness:
  "retrieve_data (Some 8) 2
     (llist_of [(0, \<lparr>frame = 6, payload = 1\<rparr>), (0, \<lparr>frame = 7, payload = 2\<rparr>),
                (1 / 2, \<lparr>frame = 8, payload = 3\<rparr>)]) =
     Some (Inr \<lparr>frame = 8, payload = 3\<rparr>, llist_of []) \<and>
   length ([] :: delivery list) = 3 - (2 + 1) \<and>
   map_option ((\<lambda>data. data ! 1) \<circ> projr \<circ> fst) (tick 2 ex_loaded) =
     Some \<lparr>frame = 8, payload = 3\<rparr> \<and>
   map_option ((\<lambda>qs. qs ! 1) \<circ> queues \<circ> snd) (tick 2 ex_loaded) =
     Some \<lparr>q_producer = Listen 1, q_items = LNil\<rparr> \<and>
   map_option ((\<lambda>data. data ! 2) \<circ> projr \<circ> fst) (tick 2 ex_loaded) =
     Some \<lparr>frame = 8, payload = 4\<rparr> \<and>
   map_option ((\<lambda>qs. qs ! 2) \<circ> queues \<circ> snd) (tick 2 ex_loaded) =
     Some \<lparr>q_producer = Listen 2, q_items = llist_of [(5, \<lparr>frame = 9, payload = 5\<rparr>)]\<rparr>"
proof -
  obtain data s where h: "tick 2 ex_loaded = Some (Inr data, s)"
    by (simp add: tick_def ex_defs)
  have q: "fst (world_tick (world ex_loaded)) = 8" "1 < length (queues ex_loaded)"
    "queues ex_loaded ! 1 = \<lparr>q_producer = Listen 1,
       q_items = prepend [(0, \<lparr>frame = 6, payload = 1\<rparr>), (0, \<lparr>frame = 7, payload = 2\<rparr>)]
                   (LCons (1 / 2, \<lparr>frame = 8, payload = 3\<rparr>) LNil)\<rparr>"
    "2 < length (queues ex_loaded)"
    "queues ex_loaded ! 2 = \<lparr>q_producer = Listen 2,
       q_items = prepend [] (LCons (0, \<lparr>frame = 8, payload = 4\<rparr>)
                   (LCons (5, \<lparr>frame = 9, payload = 5\<rparr>) LNil))\<rparr>"
    by (simp_all add: ex_defs)
  from retrieve_data_discards_stale
    [of 2 "[(0, \<lparr>frame = 6, payload = 1\<rparr>), (0, \<lparr>frame = 7, payload = 2\<rparr>)]" 8 "1 / 2"
        "\<lparr>frame = 8, payload = 3\<rparr>" LNil "[]" ex_loaded data s 1]
    retrieve_data_discards_stale
    [of 2 "[]" 8 0 "\<lparr>frame = 8, payload = 4\<rparr>" "LCons (5, \<lparr>frame = 9, payload = 5\<rparr>) LNil" "[]"
        ex_loaded data s 2]
    h q
  show ?thesis
    by (simp add: llist_of_def)
qed

subsection \<open>C3: an item of a later frame\<close>




subsection \<open>C4: timeout\<close>

text \<open>
  Claim C4 says that every tick call for which some queue yields no item of the current
  frame within the timeout fails with the timeout error. With a negative timeout the call
  fails with \<^verbatim>\<open>ValueError\<close> instead. And a queue that keeps delivering items of another
  frame in time yields no item of the current frame either, but \<^verbatim>\<open>_retrieve_data\<close> never
  leaves its loop on it: the call does not return at all.
\<close>

theorem timeout_counterexample:
  "map_option fst (tick (- 1) ex_partial) = Some (Inl ValueError) \<and>
   tick 2 ex_endless = None"
  by (simp add: tick_def ex_defs retrieve_data_stale_forever)

text \<open>
  Claim C4 as amended. For a timeout that is not negative, if a queue runs dry while
  every queue before it yields its item or runs dry too, \<^verbatim>\<open>tick(timeout)\<close> fails with
  \<^verbatim>\<open>queue.Empty\<close>, the timeout error: the result is the error and no bundle, not even a
  partial one. Nothing of what \<^verbatim>\<open>__enter__\<close> set up is undone: the captured settings and
  the sensors are kept, the handle has its settings and has been given no others, and
  the queues are subscribed as before. So the caller may call \<^verbatim>\<open>tick\<close> again, or leave
  the scope: \<^verbatim>\<open>__exit__\<close> then raises nothing and restores the captured settings.
\<close>

theorem tick_timeout:
  assumes "0 \<le> timeout"
    and "queues self = pre @ q # post"
    and "\<forall>p\<in>set pre. yields (Some (fst (world_tick (world self)))) timeout (q_items p) \<or>
                      runs_dry (Some (fst (world_tick (world self)))) timeout (q_items p)"
    and "runs_dry (Some (fst (world_tick (world self)))) timeout (q_items q)"
  shows "\<exists>self'. tick timeout self = Some (Inl QueueEmpty, self') \<and>
           settings self' = settings self \<and> sensors self' = sensors self \<and>
           get_settings (world self') = get_settings (world self) \<and>
           w_applied (world self') = w_applied (world self) \<and>
           map q_producer (queues self') = map q_producer (queues self) \<and>
           (\<forall>s. settings self = Some s \<longrightarrow>
              fst (exit self') = None \<and> get_settings (world (snd (exit self'))) = s)"
proof -
  let ?f = "w_frame (world self) + 1"
  from assms(3,4) have
    "\<forall>p\<in>set pre. yields (Some ?f) timeout (q_items p) \<or> runs_dry (Some ?f) timeout (q_items p)"
    "runs_dry (Some ?f) timeout (q_items q)"
    by (simp_all add: world_tick_def)
  from retrieve_all_runs_dry [OF assms(1) this, of post] assms(2) obtain qs' where
    ra: "retrieve_all (Some ?f) timeout (queues self) = Some (Inl QueueEmpty, qs')"
    by auto
  let ?s = "self\<lparr>world := (world self)\<lparr>w_frame := ?f\<rparr>, self_frame := Some ?f, queues := qs'\<rparr>"
  from ra have "tick timeout self = Some (Inl QueueEmpty, ?s)"
    by (simp add: tick_eq)
  moreover from retrieve_all_producers [OF ra]
  have "map q_producer (queues ?s) = map q_producer (queues self)"
    by simp
  moreover have "\<forall>s. settings self = Some s \<longrightarrow>
      fst (exit ?s) = None \<and> get_settings (world (snd (exit ?s))) = s"
    by (simp add: exit_def apply_settings_def get_settings_def)
  ultimately show ?thesis
    by (intro exI [of _ ?s]) (simp add: get_settings_def)
qed

text \<open>
  The first sensor needs three seconds for its item of frame 8 and the timeout is two:
  the step times out, the item is one second away afterwards and the queue of the second
  sensor has not been read. A second tick then returns the bundle of frame 9, and
  leaving the scope instead restores the settings.
\<close>

theorem tick_timeout_witness:
  "map_option fst (tick 2 ex_partial) = Some (Inl QueueEmpty) \<and>
   map_option (map q_items \<circ> queues \<circ> snd) (tick 2 ex_partial) =
     Some [llist_of [(1, \<lparr>frame = 9, payload = 1\<rparr>)],
           llist_of [(1, \<lparr>frame = 8, payload = 3\<rparr>), (1, \<lparr>frame = 9, payload = 4\<rparr>)],
           llist_of [(0, \<lparr>frame = 8, payload = 5\<rparr>), (1, \<lparr>frame = 9, payload = 6\<rparr>)]] \<and>
   map_option fst (Option.bind (tick 2 ex_partial) (\<lambda>(r, s). tick 2 s)) =
     Some (Inr [\<lparr>frame = 9, payload = 1\<rparr>, \<lparr>frame = 9, payload = 4\<rparr>, \<lparr>frame = 9, payload = 6\<rparr>]) \<and>
   map_option (fst \<circ> exit \<circ> snd) (tick 2 ex_partial) = Some None \<and>
   map_option (get_settings \<circ> world \<circ> snd \<circ> exit \<circ> snd) (tick 2 ex_partial) = Some ex_settings"
proof -
  have f: "fst (world_tick (world ex_partial)) = 8"
    by (simp add: ex_defs)
  have q: "queues ex_partial =
     [\<lparr>q_producer = OnTick,
       q_items = llist_of [(0, \<lparr>frame = 8, payload = 0\<rparr>), (1, \<lparr>frame = 9, payload = 1\<rparr>)]\<rparr>] @
     \<lparr>q_producer = Listen 1,
       q_items = llist_of [(0, \<lparr>frame = 7, payload = 2\<rparr>), (3, \<lparr>frame = 8, payload = 3\<rparr>),
                           (1, \<lparr>frame = 9, payload = 4\<rparr>)]\<rparr> #
     [\<lparr>q_producer = Listen 2,
       q_items = llist_of [(0, \<lparr>frame = 8, payload = 5\<rparr>), (1, \<lparr>frame = 9, payload = 6\<rparr>)]\<rparr>]"
    by (simp add: ex_defs)
  have "llist_of [(0, \<lparr>frame = 8, payload = 0\<rparr>), (1, \<lparr>frame = 9, payload = 1\<rparr>)] =
        prepend [] (LCons (0, \<lparr>frame = 8, payload = 0\<rparr>) (llist_of [(1, \<lparr>frame = 9, payload = 1\<rparr>)])) \<and>
        passed_over (Some 8) 2 [] \<and> (0::real) \<le> 2 \<and>
        Some (frame \<lparr>frame = 8, payload = 0\<rparr>) = Some (8::int)"
    by (simp add: llist_of_def)
  then have y: "yields (Some 8) 2
      (llist_of [(0, \<lparr>frame = 8, payload = 0\<rparr>), (1, \<lparr>frame = 9, payload = 1\<rparr>)])"
    unfolding yields_def by blast
  have "passed_over (Some 8) 2 [(0, \<lparr>frame = 7, payload = 2\<rparr>)] \<and>
        llist_of [(0, \<lparr>frame = 7, payload = 2\<rparr>), (3, \<lparr>frame = 8, payload = 3\<rparr>),
                  (1, \<lparr>frame = 9, payload = 4\<rparr>)] =
        prepend [(0, \<lparr>frame = 7, payload = 2\<rparr>)]
          (LCons (3, \<lparr>frame = 8, payload = 3\<rparr>) (llist_of [(1, \<lparr>frame = 9, payload = 4\<rparr>)])) \<and>
        (2::real) < 3"
    by (simp add: llist_of_def)
  then have d: "runs_dry (Some 8) 2
      (llist_of [(0, \<lparr>frame = 7, payload = 2\<rparr>), (3, \<lparr>frame = 8, payload = 3\<rparr>),
                 (1, \<lparr>frame = 9, payload = 4\<rparr>)])"
    unfolding runs_dry_def by blast
  have s: "settings ex_partial = Some ex_settings"
    by (simp add: ex_defs)
  from tick_timeout [of 2 ex_partial, OF _ q] f y d obtain self' where
    t: "tick 2 ex_partial = Some (Inl QueueEmpty, self')"
    and e: "\<forall>s. settings ex_partial = Some s \<longrightarrow>
              fst (exit self') = None \<and> get_settings (world (snd (exit self'))) = s"
    by auto
  have qs: "map_option (map q_items \<circ> queues \<circ> snd) (tick 2 ex_partial) =
     Some [llist_of [(1, \<lparr>frame = 9, payload = 1\<rparr>)],
           llist_of [(1, \<lparr>frame = 8, payload = 3\<rparr>), (1, \<lparr>frame = 9, payload = 4\<rparr>)],
           llist_of [(0, \<lparr>frame = 8, payload = 5\<rparr>), (1, \<lparr>frame = 9, payload = 6\<rparr>)]]"
    by (simp add: tick_def ex_defs)
  have retry: "map_option fst (Option.bind (tick 2 ex_partial) (\<lambda>(r, s). tick 2 s)) =
     Some (Inr [\<lparr>frame = 9, payload = 1\<rparr>, \<lparr>frame = 9, payload = 4\<rparr>, \<lparr>frame = 9, payload = 6\<rparr>])"
    by (simp add: tick_def ex_defs)
  from t e s qs retry show ?thesis
    by simp
qed

subsection \<open>C5: the settings are restored on every exit\<close>

text \<open>
  Claim C5. Whatever the block of the \<^verbatim>\<open>with\<close> statement does and however it ends (it
  returns, it times out, it fails otherwise), as long as it leaves \<^verbatim>\<open>self._settings\<close>
  alone, the handle's settings after the scope are exactly those read at entry, and the
  outcome of the block is the outcome of the statement. At entry the settings are
  captured before the new ones are applied: what is stored is the handle's settings from
  before the call, and the synchronous settings are applied after it.
\<close>

theorem with_sync_restores:
  assumes "body (enter self) = Some (r, s2)"
    and "settings s2 = settings (enter self)"
  shows "(\<exists>s3. with_sync self body = Some (r, s3) \<and>
               get_settings (world s3) = get_settings (world self)) \<and>
         settings (enter self) = Some (get_settings (world self)) \<and>
         w_applied (world (enter self)) = w_applied (world self) @
           [\<lparr>no_rendering_mode = False, synchronous_mode = True,
             fixed_delta_seconds = delta_seconds self\<rparr>]"
proof -
  have captured: "settings (enter self) = Some (get_settings (world self))"
    by (simp add: enter_eq)
  with assms(2) have "settings s2 = Some (get_settings (world self))"
    by simp
  then have "exit s2 = (None, s2\<lparr>world := snd (apply_settings (get_settings (world self)) (world s2))\<rparr>)"
    by (simp add: exit_def)
  with assms(1) have "with_sync self body =
      Some (r, s2\<lparr>world := snd (apply_settings (get_settings (world self)) (world s2))\<rparr>)"
    by (simp add: with_sync_def)
  moreover have "get_settings (world (s2\<lparr>world := snd (apply_settings (get_settings (world self))
      (world s2))\<rparr>)) = get_settings (world self)"
    by (simp add: get_settings_def apply_settings_def)
  ultimately have "\<exists>s3. with_sync self body = Some (r, s3) \<and>
               get_settings (world s3) = get_settings (world self)"
    by blast
  with captured show ?thesis
    by (simp add: enter_eq)
qed

text \<open>
  A block whose step times out (no item has been delivered) and a block whose step
  returns a bundle: after both the handle has its settings from before the scope.
\<close>

theorem with_sync_restores_witness:
  "map_option fst (with_sync ex_self (tick 2)) = Some (Inl QueueEmpty) \<and>
   map_option (get_settings \<circ> world \<circ> snd) (with_sync ex_self (tick 2)) = Some ex_settings \<and>
   map_option fst (with_sync ex_self (\<lambda>s. tick 2 (s\<lparr>queues := queues ex_loaded\<rparr>))) =
     Some (Inr [\<lparr>frame = 8, payload = 0\<rparr>, \<lparr>frame = 8, payload = 3\<rparr>, \<lparr>frame = 8, payload = 4\<rparr>]) \<and>
   map_option (get_settings \<circ> world \<circ> snd)
     (with_sync ex_self (\<lambda>s. tick 2 (s\<lparr>queues := queues ex_loaded\<rparr>))) = Some ex_settings"
proof -
  obtain s2 where t1: "tick 2 (enter ex_self) = Some (Inl QueueEmpty, s2)"
    by (simp add: tick_def ex_defs)
  obtain s2' where t2: "(\<lambda>s. tick 2 (s\<lparr>queues := queues ex_loaded\<rparr>)) (enter ex_self) =
     Some (Inr [\<lparr>frame = 8, payload = 0\<rparr>, \<lparr>frame = 8, payload = 3\<rparr>, \<lparr>frame = 8, payload = 4\<rparr>], s2')"
    by (simp add: tick_def ex_defs)
  from t1 have h1: "settings s2 = settings (enter ex_self)"
    by (rule tick_keeps_settings)
  from t2 have h2: "settings s2' = settings (enter ex_self)"
    by (simp add: tick_keeps_settings)
  have w: "get_settings (world ex_self) = ex_settings"
    by (simp add: ex_defs)
  from with_sync_restores [of "tick 2" ex_self, OF t1 h1]
       with_sync_restores [of "\<lambda>s. tick 2 (s\<lparr>queues := queues ex_loaded\<rparr>)" ex_self, OF t2 h2] w
  show ?thesis
    by auto
qed

subsection \<open>C6: the bundle follows the registration order\<close>

text \<open>
  Claim C6. \<^verbatim>\<open>__enter__\<close> on a fresh synchronizer subscribes the queues in the order
  \<^verbatim>\<open>world.on_tick\<close>, then the sensors as they were given to the constructor. A
  successful \<^verbatim>\<open>tick\<close> returns one item per queue, the k-th item taken from the k-th
  queue, whatever the queues hold and whenever the items are delivered, and it leaves
  the order of the queues as it was.
\<close>

theorem bundle_order:
  "(queues self = [] \<longrightarrow>
      map q_producer (queues (enter self)) = OnTick # map Listen (sensors self)) \<and>
   (tick timeout self = Some (Inr data, self') \<longrightarrow>
      list_all2 (\<lambda>d q. d \<in> snd ` lset (q_items q)) data (queues self) \<and>
      map q_producer (queues self') = map q_producer (queues self))"
proof (intro conjI impI)
  assume "queues self = []"
  then show "map q_producer (queues (enter self)) = OnTick # map Listen (sensors self)"
    by (simp add: enter_eq comp_def)
next
  let ?f = "w_frame (world self) + 1"
  assume t: "tick timeout self = Some (Inr data, self')"
  then have r: "retrieve_all (Some ?f) timeout (queues self) = Some (Inr data, queues self')"
    by (auto simp: tick_Some_iff)
  from retrieve_all_Inr [OF r] have len: "length data = length (queues self)"
    and s: "\<forall>k<length (queues self).
              served (Some ?f) timeout (queues self ! k) (data ! k) (queues self' ! k)"
    by simp_all
  have "data ! k \<in> snd ` lset (q_items (queues self ! k))" if "k < length (queues self)" for k
  proof -
    from s that obtain xs w where
      "q_items (queues self ! k) = prepend xs (LCons (w, data ! k) (q_items (queues self' ! k)))"
      unfolding served_def by blast
    then have "(w, data ! k) \<in> lset (q_items (queues self ! k))"
      by (simp add: lset_prepend)
    then show ?thesis
      by force
  qed
  with len show "list_all2 (\<lambda>d q. d \<in> snd ` lset (q_items q)) data (queues self)"
    by (simp add: list_all2_conv_all_nth)
  from retrieve_all_producers [OF r]
  show "map q_producer (queues self') = map q_producer (queues self)" .
qed

text \<open>
  Two sensors: the queues are those of the world, of sensor 1 and of sensor 2, and the
  bundle of the step to frame 8 holds their items in that order.
\<close>

theorem bundle_order_witness:
  "map q_producer (queues (enter ex_self)) = [OnTick, Listen 1, Listen 2] \<and>
   map q_producer (queues ex_loaded) = [OnTick, Listen 1, Listen 2] \<and>
   map_option fst (tick 2 ex_loaded) =
     Some (Inr [\<lparr>frame = 8, payload = 0\<rparr>, \<lparr>frame = 8, payload = 3\<rparr>, \<lparr>frame = 8, payload = 4\<rparr>]) \<and>
   map_option (map q_producer \<circ> queues \<circ> snd) (tick 2 ex_loaded) =
     Some [OnTick, Listen 1, Listen 2]"
proof -
  obtain s where h: "tick 2 ex_loaded =
    Some (Inr [\<lparr>frame = 8, payload = 0\<rparr>, \<lparr>frame = 8, payload = 3\<rparr>, \<lparr>frame = 8, payload = 4\<rparr>], s)"
    by (simp add: tick_def ex_defs)
  have q: "queues ex_self = []" "sensors ex_self = [1, 2]"
    by (simp_all add: ex_defs)
  have l: "map q_producer (queues ex_loaded) = [OnTick, Listen 1, Listen 2]"
    by (simp add: ex_defs)
  from bundle_order [of ex_self 2 "[]" ex_self] q
  have e: "map q_producer (queues (enter ex_self)) = [OnTick, Listen 1, Listen 2]"
    by simp
  from bundle_order [of ex_loaded 2 _ s] h l
  have "map q_producer (queues s) = [OnTick, Listen 1, Listen 2]"
    by simp
  with e l h show ?thesis
    by simp
qed

subsection \<open>C7: the settings applied at entry\<close>

text \<open>
  Claim C7 says that the settings applied at entry disable non-essential rendering.
  \<^verbatim>\<open>__enter__\<close> passes \<^verbatim>\<open>no_rendering_mode=False\<close>: rendering stays on, as the cameras of
  the example need it. On a handle that ran with rendering off, entering turns it on.
\<close>

theorem enter_rendering_counterexample:
  "no_rendering_mode (get_settings (world ex_self)) \<and>
   \<not> no_rendering_mode (get_settings (world (enter ex_self)))"
  by (simp add: ex_defs)

text \<open>
  Claim C7 as amended. The settings applied at entry leave rendering enabled
  (\<^verbatim>\<open>no_rendering_mode\<close> is false), enable synchronous mode and set the fixed step to
  \<^verbatim>\<open>delta_seconds\<close>; the frame id returned by that call is stored as the current frame.
\<close>

theorem enter_applies_settings:
  "get_settings (world (enter self)) =
     \<lparr>no_rendering_mode = False, synchronous_mode = True,
      fixed_delta_seconds = delta_seconds self\<rparr> \<and>
   self_frame (enter self) =
     Some (fst (apply_settings \<lparr>no_rendering_mode = False, synchronous_mode = True,
                               fixed_delta_seconds = delta_seconds self\<rparr> (world self)))"
  by (simp add: enter_eq get_settings_def apply_settings_def)

text \<open>Entering at frame 7 with the default rate.\<close>

theorem enter_applies_settings_witness:
  "get_settings (world (enter ex_self)) =
     \<lparr>no_rendering_mode = False, synchronous_mode = True, fixed_delta_seconds = 1 / 20\<rparr> \<and>
   self_frame (enter ex_self) = Some 7"
  using enter_applies_settings [of ex_self]
  by (simp add: ex_self_def ex_world_def apply_settings_def)

subsection \<open>C8: the rate option\<close>



subsection \<open>C9: leaving the scope twice\<close>

text \<open>
  Claim C9 says that leaving the scope twice restores the settings at most once.
  \<^verbatim>\<open>__exit__\<close> has no guard and does not clear \<^verbatim>\<open>self._settings\<close>: each call applies the
  captured settings, so the handle receives them twice.
\<close>

theorem exit_twice_counterexample:
  "fst (exit (enter ex_self)) = None \<and>
   fst (exit (snd (exit (enter ex_self)))) = None \<and>
   w_applied (world (enter ex_self)) =
     [\<lparr>no_rendering_mode = False, synchronous_mode = True, fixed_delta_seconds = 1 / 20\<rparr>] \<and>
   w_applied (world (snd (exit (enter ex_self)))) =
     [\<lparr>no_rendering_mode = False, synchronous_mode = True, fixed_delta_seconds = 1 / 20\<rparr>,
      ex_settings] \<and>
   w_applied (world (snd (exit (snd (exit (enter ex_self)))))) =
     [\<lparr>no_rendering_mode = False, synchronous_mode = True, fixed_delta_seconds = 1 / 20\<rparr>,
      ex_settings, ex_settings]"
  by (simp add: exit_def ex_defs)

text \<open>
  Claim C9 as amended. Once the settings are captured, leaving the scope twice does not
  raise; each exit applies the captured settings to the handle, so they are applied
  twice, and after the second exit the handle's settings are what they were after the
  first: the captured ones.
\<close>

theorem exit_twice:
  assumes "settings self = Some s"
  shows "fst (exit self) = None \<and> fst (exit (snd (exit self))) = None \<and>
         get_settings (world (snd (exit self))) = s \<and>
         get_settings (world (snd (exit (snd (exit self))))) = s \<and>
         w_applied (world (snd (exit self))) = w_applied (world self) @ [s] \<and>
         w_applied (world (snd (exit (snd (exit self))))) = w_applied (world self) @ [s, s]"
  using assms by (simp add: exit_def apply_settings_def get_settings_def)

text \<open>Entering and leaving twice: no error, and the original settings after each exit.\<close>

theorem exit_twice_witness:
  "fst (exit (snd (exit (enter ex_self)))) = None \<and>
   get_settings (world (snd (exit (enter ex_self)))) = ex_settings \<and>
   get_settings (world (snd (exit (snd (exit (enter ex_self)))))) = ex_settings"
proof -
  have "settings (enter ex_self) = Some ex_settings"
    by (simp add: ex_defs)
  from exit_twice [OF this] show ?thesis
    by simp
qed

subsection \<open>C10: a failed step keeps the new frame\<close>

text \<open>
  Claim C10. When \<^verbatim>\<open>tick(timeout)\<close> fails, the stored frame is the frame id the step of
  that call returned: it was stored before the queues were read and is not rolled back.
  The items that were not popped are where they were. With a negative timeout the
  failure is the \<^verbatim>\<open>ValueError\<close> of the first \<^verbatim>\<open>get\<close> and every queue is as before.
  Otherwise the failure is the timeout error: one queue has run dry, every queue before
  it has been served, losing the items in front of its item of the new frame and that
  item and keeping all behind it, and the queues behind it have not been read.
\<close>

theorem failed_tick_keeps_frame:
  assumes "tick timeout self = Some (Inl e, self')"
  shows "self_frame self' = Some (fst (world_tick (world self))) \<and>
         ((timeout < 0 \<and> e = ValueError \<and> queues self' = queues self) \<or>
          (0 \<le> timeout \<and> e = QueueEmpty \<and>
           (\<exists>pre q post pre' q'.
              queues self = pre @ q # post \<and> queues self' = pre' @ q' # post \<and>
              length pre' = length pre \<and>
              (\<forall>k<length pre.
                 \<exists>d. served (Some (fst (world_tick (world self)))) timeout (pre ! k) d (pre' ! k)) \<and>
              dried (Some (fst (world_tick (world self)))) timeout q q')))"
proof -
  let ?f = "w_frame (world self) + 1"
  from assms have r: "retrieve_all (Some ?f) timeout (queues self) = Some (Inl e, queues self')"
    and f: "self_frame self' = Some ?f"
    by (auto simp: tick_Some_iff)
  from retrieve_all_Inl [OF r] f show ?thesis
    by (simp add: world_tick_def)
qed

text \<open>
  The step from frame 7 to frame 8 that times out on the second queue: the stored frame
  is 8, the first queue keeps what is behind its item of frame 8, the second keeps the
  item that came too late and its successor, and the third has not been read.
\<close>

theorem failed_tick_keeps_frame_witness:
  "map_option fst (tick 2 ex_partial) = Some (Inl QueueEmpty) \<and>
   self_frame ex_partial = Some 7 \<and>
   map_option (self_frame \<circ> snd) (tick 2 ex_partial) = Some (Some 8) \<and>
   map_option (map q_items \<circ> queues \<circ> snd) (tick 2 ex_partial) =
     Some [llist_of [(1, \<lparr>frame = 9, payload = 1\<rparr>)],
           llist_of [(1, \<lparr>frame = 8, payload = 3\<rparr>), (1, \<lparr>frame = 9, payload = 4\<rparr>)],
           llist_of [(0, \<lparr>frame = 8, payload = 5\<rparr>), (1, \<lparr>frame = 9, payload = 6\<rparr>)]]"
proof -
  obtain s where h: "tick 2 ex_partial = Some (Inl QueueEmpty, s)"
    by (simp add: tick_def ex_defs)
  have "self_frame s = Some (fst (world_tick (world ex_partial)))"
    using failed_tick_keeps_frame [OF h] by (rule conjunct1)
  moreover have "fst (world_tick (world ex_partial)) = 8"
    by (simp add: ex_defs)
  moreover have "map_option (map q_items \<circ> queues \<circ> snd) (tick 2 ex_partial) =
     Some [llist_of [(1, \<lparr>frame = 9, payload = 1\<rparr>)],
           llist_of [(1, \<lparr>frame = 8, payload = 3\<rparr>), (1, \<lparr>frame = 9, payload = 4\<rparr>)],
           llist_of [(0, \<lparr>frame = 8, payload = 5\<rparr>), (1, \<lparr>frame = 9, payload = 6\<rparr>)]]"
    by (simp add: tick_def ex_defs)
  moreover have "self_frame ex_partial = Some 7"
    by (simp add: ex_defs)
  ultimately show ?thesis
    using h by simp
qed

end
